theory Spec2Isabelle
  imports Complex_Main "HOL-Library.Sublist"
begin

section \<open>Text processing (text-processing.js)\<close>

text \<open>
  A JavaScript string is modelled as a \<^typ>\<open>string\<close>: the list of its code units, each
  in the range U+0000..U+00FF. On that range the class \<^verbatim>\<open>\s\<close> of a regular expression
  and the characters removed by \<^verbatim>\<open>String.prototype.trim\<close> are the same seven
  characters: TAB, LF, VT, FF, CR, SPACE and NBSP.
\<close>

definition isWhitespace :: "char \<Rightarrow> bool" where
  "isWhitespace c \<longleftrightarrow>
     c \<in> set [CHR 0x09, CHR 0x0A, CHR 0x0B, CHR 0x0C, CHR 0x0D, CHR 0x20, CHR 0xA0]"

definition newline :: char where
  "newline = CHR 0x0A"

definition space :: char where
  "space = CHR 0x20"

text \<open>\<^verbatim>\<open>s.trim()\<close>: leading, then trailing whitespace is removed.\<close>

definition trimStart :: "string \<Rightarrow> string" where
  "trimStart s = dropWhile isWhitespace s"

definition trimEnd :: "string \<Rightarrow> string" where
  "trimEnd s = rev (dropWhile isWhitespace (rev s))"

definition trim :: "string \<Rightarrow> string" where
  "trim s = trimEnd (trimStart s)"

text \<open>
  \<^verbatim>\<open>s.replace(/\s+/g, ' ')\<close>: scanning from the left, every maximal run of whitespace
  is replaced by one space.
\<close>

function collapseWhitespace :: "string \<Rightarrow> string" where
  "collapseWhitespace [] = []"
| "collapseWhitespace (c # cs) =
     (if isWhitespace c then space # collapseWhitespace (dropWhile isWhitespace cs)
      else c # collapseWhitespace cs)"
  by pat_completeness auto
termination
  by (relation "measure length") (auto simp: length_dropWhile_le le_imp_less_Suc)

text \<open>
  \<^verbatim>\<open>s.replace(/\n{3,}/g, '\n\n')\<close>: the quantifier is greedy, so a match starts at a
  newline that begins a run of at least three and takes the whole run.
\<close>

function collapseNewlines :: "string \<Rightarrow> string" where
  "collapseNewlines [] = []"
| "collapseNewlines (c # cs) =
     (if c = newline \<and> 3 \<le> length (takeWhile (\<lambda>d. d = newline) (c # cs))
      then newline # newline # collapseNewlines (dropWhile (\<lambda>d. d = newline) cs)
      else c # collapseNewlines cs)"
  by pat_completeness auto
termination
  by (relation "measure length") (auto simp: length_dropWhile_le le_imp_less_Suc)

text \<open>
  \<^verbatim>\<open>normalizeText(text)\<close>. The guard \<^verbatim>\<open>!text\<close> is true of the empty string, for
  which the function returns the empty string.
\<close>

definition normalizeText :: "string \<Rightarrow> string" where
  "normalizeText text =
     (if text = [] then []
      else trim (collapseNewlines (collapseWhitespace (trim text))))"

definition isPunct :: "char \<Rightarrow> bool" where
  "isPunct c \<longleftrightarrow> c \<in> set [CHR ''.'', CHR ''!'', CHR ''?'']"

text \<open>The character classes \<^verbatim>\<open>[A-Z]\<close> and \<^verbatim>\<open>[A-Za-z]\<close>.\<close>

definition isUpper :: "char \<Rightarrow> bool" where
  "isUpper c \<longleftrightarrow> (65::nat) \<le> of_char c \<and> of_char c \<le> (90::nat)"

definition isLetter :: "char \<Rightarrow> bool" where
  "isLetter c \<longleftrightarrow> isUpper c \<or> ((97::nat) \<le> of_char c \<and> of_char c \<le> (122::nat))"

text \<open>
  \<^verbatim>\<open>s.substring(a, b)\<close> on indices that are natural numbers: the arguments are
  clamped to the length of the string and swapped when \<open>a > b\<close>.
  \<^verbatim>\<open>s.substring(a)\<close> runs to the end of the string.
\<close>

definition substring :: "string \<Rightarrow> nat \<Rightarrow> nat \<Rightarrow> string" where
  "substring s a b = take (max a b - min a b) (drop (min a b) s)"

definition substringFrom :: "string \<Rightarrow> nat \<Rightarrow> string" where
  "substringFrom s a = drop a s"

text \<open>
  \<^verbatim>\<open>sentenceEndPattern.exec(normalized)\<close> for the global pattern
  \<^verbatim>\<open>/([.!?])(\s+|$)/g\<close> with \<^verbatim>\<open>lastIndex = pos\<close>: the first index from \<open>pos\<close> on that
  holds one of the three marks followed by whitespace or by the end of the string. The
  result is \<^verbatim>\<open>(match.index, match[0].length)\<close>; the whitespace run is taken greedily.
  \<open>None\<close> is the \<^verbatim>\<open>null\<close> that ends the loop.
\<close>

function sentenceEndExec :: "string \<Rightarrow> nat \<Rightarrow> (nat \<times> nat) option" where
  "sentenceEndExec s pos =
     (if length s \<le> pos then None
      else if isPunct (s ! pos) \<and> (pos + 1 = length s \<or> isWhitespace (s ! (pos + 1)))
      then Some (pos, 1 + length (takeWhile isWhitespace (drop (pos + 1) s)))
      else sentenceEndExec s (pos + 1))"
  by pat_completeness auto
termination
  by (relation "measure (\<lambda>(s, pos). length s - pos)") auto

declare sentenceEndExec.simps [simp del]

text \<open>
  The \<^verbatim>\<open>while\<close> loop of \<^verbatim>\<open>splitIntoSentences\<close>. The state is the pattern's
  \<^verbatim>\<open>lastIndex\<close> (\<open>pos\<close>), the variable \<^verbatim>\<open>lastIndex\<close> of the function and the
  array \<^verbatim>\<open>sentences\<close>; the loop returns the last two. \<^verbatim>\<open>normalized[match.index - 1]\<close>
  is \<^verbatim>\<open>undefined\<close> at index 0, which makes \<^verbatim>\<open>isAbbreviation\<close> falsy.
\<close>

function splitLoop :: "string \<Rightarrow> nat \<Rightarrow> nat \<Rightarrow> string list \<Rightarrow> string list \<times> nat" where
  "splitLoop normalized pos lastIndex sentences =
     (case sentenceEndExec normalized pos of
        None \<Rightarrow> (sentences, lastIndex)
      | Some (index, len) \<Rightarrow>
          (let endIndex = index + 1;
               sentence = trim (substring normalized lastIndex endIndex)
           in if 0 < length sentence \<and> 2 < length sentence then
                (let isAbbreviation = (0 < index \<and> isLetter (normalized ! (index - 1)))
                 in if isAbbreviation \<and> index + 2 < length normalized then
                      (if isUpper (normalized ! (index + 2))
                       then splitLoop normalized (index + len) (index + len) (sentences @ [sentence])
                       else splitLoop normalized (index + len) lastIndex sentences)
                    else splitLoop normalized (index + len) (index + len) (sentences @ [sentence]))
              else splitLoop normalized (index + len) lastIndex sentences))"
  by pat_completeness auto
termination
proof -
  have exec: "pos < length s \<and> pos < index + len"
    if "sentenceEndExec s pos = Some (index, len)" for s pos index len
    using that
  proof (induction s pos rule: sentenceEndExec.induct)
    case (1 s pos)
    then show ?case
      by (subst (asm) (2) sentenceEndExec.simps) (auto split: if_splits)
  qed
  show ?thesis
    by (relation "measure (\<lambda>(s, pos, lastIndex, sentences). length s - pos)")
       (auto dest!: exec)
qed

declare splitLoop.simps [simp del]

text \<open>\<^verbatim>\<open>splitIntoSentences(text)\<close>.\<close>

definition splitIntoSentences :: "string \<Rightarrow> string list" where
  "splitIntoSentences text =
     (if text = [] then []
      else
        (let normalized = collapseWhitespace (trim text)
         in if length normalized = 0 then []
            else
              (let (pushed, lastIndex) = splitLoop normalized 0 0 [];
                   sentences =
                     (if lastIndex < length normalized then
                        (let remaining = trim (substringFrom normalized lastIndex)
                         in if 0 < length remaining then pushed @ [remaining] else pushed)
                      else pushed)
               in if length sentences = 0 then [normalized] else sentences)))"

section \<open>Cosine similarity (similarity.js)\<close>

text \<open>
  A vector is a JavaScript array of numbers, modelled as the list of their values. The
  four functions of this module are modelled in exact arithmetic over the reals: they are
  the functions of the code at arguments where no operation rounds, overflows or
  underflows, and only there. Nothing that is proved about \<open>semanticChunk\<close> relies on
  them: \<open>semanticChunk\<close> takes its similarity function as a parameter.
\<close>

type_synonym embedding = "real list"

text \<open>
  The errors that the functions throw, by their messages:
  \<^verbatim>\<open>Vector length mismatch: a vs b\<close> is \<open>DimensionMismatch a b\<close>,
  \<^verbatim>\<open>Vectors must not be empty\<close> is \<open>EmptyVector\<close>,
  \<^verbatim>\<open>Failed to generate embeddings for semantic chunking: msg\<close> is
  \<open>EmbeddingFailure msg\<close> and
  \<^verbatim>\<open>Embedding count mismatch: a embeddings for b sentences\<close> is
  \<open>EmbeddingCountMismatch a b\<close>. The guards against arguments that are
  \<^verbatim>\<open>null\<close>, \<^verbatim>\<open>undefined\<close> or not arrays have no counterpart: a vector is a
  list, and so is a list of vectors or of messages.
\<close>

datatype error =
    DimensionMismatch nat nat
  | EmptyVector
  | EmbeddingFailure string
  | EmbeddingCountMismatch nat nat

text \<open>\<^verbatim>\<open>array.map(f)\<close> for an \<open>f\<close> that may throw: the first throw ends the call.\<close>

fun mapE :: "('a \<Rightarrow> error + 'b) \<Rightarrow> 'a list \<Rightarrow> error + 'b list" where
  "mapE f [] = Inr []"
| "mapE f (x # xs) =
     (case f x of
        Inl e \<Rightarrow> Inl e
      | Inr y \<Rightarrow> (case mapE f xs of Inl e \<Rightarrow> Inl e | Inr ys \<Rightarrow> Inr (y # ys)))"

definition dotProduct :: "embedding \<Rightarrow> embedding \<Rightarrow> error + real" where
  "dotProduct vecA vecB =
     (if length vecA \<noteq> length vecB
      then Inl (DimensionMismatch (length vecA) (length vecB))
      else Inr (foldl (\<lambda>sum i. sum + vecA ! i * vecB ! i) 0 [0..<length vecA]))"

definition magnitude :: "embedding \<Rightarrow> real" where
  "magnitude vec = sqrt (foldl (\<lambda>sum i. sum + vec ! i * vec ! i) 0 [0..<length vec])"

definition cosineSimilarity :: "embedding \<Rightarrow> embedding \<Rightarrow> error + real" where
  "cosineSimilarity vecA vecB =
     (if length vecA \<noteq> length vecB
      then Inl (DimensionMismatch (length vecA) (length vecB))
      else if length vecA = 0 then Inl EmptyVector
      else
        (case dotProduct vecA vecB of
           Inl e \<Rightarrow> Inl e
         | Inr dot \<Rightarrow>
             (let magA = magnitude vecA; magB = magnitude vecB
              in if magA = 0 \<or> magB = 0 then Inr 0 else Inr (dot / (magA * magB)))))"

definition cosineSimilarityBatch :: "embedding \<Rightarrow> embedding list \<Rightarrow> error + real list" where
  "cosineSimilarityBatch baseVector vectors =
     (let magA = magnitude baseVector
      in mapE (\<lambda>vecB.
           if length vecB \<noteq> length baseVector
           then Inl (DimensionMismatch (length baseVector) (length vecB))
           else
             (case dotProduct baseVector vecB of
                Inl e \<Rightarrow> Inl e
              | Inr dot \<Rightarrow>
                  (let magB = magnitude vecB
                   in if magA = 0 \<or> magB = 0 then Inr 0 else Inr (dot / (magA * magB)))))
         vectors)"

text \<open>
  A similarity as the chunker receives it is a double: a finite value, an infinity or
  \<^verbatim>\<open>NaN\<close>. \<open>greaterOrEqual x t\<close> is the comparison \<^verbatim>\<open>x >= t\<close> of a double with
  a finite \<open>t\<close>; it is false of \<^verbatim>\<open>NaN\<close>.
\<close>

datatype number = Finite real | PosInfinity | NegInfinity | NaN

fun greaterOrEqual :: "number \<Rightarrow> real \<Rightarrow> bool" where
  "greaterOrEqual (Finite x) t \<longleftrightarrow> t \<le> x"
| "greaterOrEqual PosInfinity t \<longleftrightarrow> True"
| "greaterOrEqual NegInfinity t \<longleftrightarrow> False"
| "greaterOrEqual NaN t \<longleftrightarrow> False"

text \<open>The exact \<open>cosineSimilarityBatch\<close>, its results taken as doubles.\<close>

definition exactSimilarityBatch :: "embedding \<Rightarrow> embedding list \<Rightarrow> error + number list" where
  "exactSimilarityBatch baseVector vectors =
     (case cosineSimilarityBatch baseVector vectors of
        Inl e \<Rightarrow> Inl e
      | Inr sims \<Rightarrow> Inr (map Finite sims))"

section \<open>Semantic chunking (semantic-chunker.js)\<close>

datatype role = Client | Team

record message =
  content :: string
  author :: string
  timestamp :: int
  isTeam :: bool

record sentence =
  sentence_text :: string
  author_role :: role
  message_timestamp :: int
  message_index :: nat
  original_message :: message

text \<open>
  The object \<^verbatim>\<open>currentChunk\<close>. Its field \<^verbatim>\<open>author_role\<close> is named
  \<open>running_role\<close> here, and the fields of an emitted chunk carry the prefix
  \<open>chunk_\<close>, to keep them apart from the fields of a sentence and of a message. The
  field \<^verbatim>\<open>text\<close> of a sentence is \<open>sentence_text\<close>.
\<close>

record accumulator =
  sentences :: "sentence list"
  embeddings :: "embedding list"
  startTimestamp :: int
  running_role :: role

record metadata =
  sentence_count :: nat
  original_length :: nat

record chunk =
  chunk_content :: string
  chunk_author_role :: role
  chunk_message_timestamp :: int
  chunk_metadata :: metadata

text \<open>The \<^verbatim>\<open>options\<close> object; \<open>None\<close> is a key that is absent.\<close>

record options =
  threshold :: "real option"
  minChunkLength :: "int option"
  maxChunkLength :: "int option"

record config =
  SIMILARITY_THRESHOLD :: real
  MIN_CHUNK_LENGTH :: int
  MAX_CHUNK_LENGTH :: int

text \<open>
  \<^verbatim>\<open>v || d\<close> on a number that may be missing: \<^verbatim>\<open>undefined\<close>, \<^verbatim>\<open>NaN\<close> (both
  \<open>None\<close>) and \<open>0\<close> are falsy.
\<close>

definition orDefault :: "'a::zero option \<Rightarrow> 'a \<Rightarrow> 'a" where
  "orDefault v d = (case v of None \<Rightarrow> d | Some x \<Rightarrow> if x = 0 then d else x)"

text \<open>
  The module constant \<^verbatim>\<open>CONFIG\<close>. Its argument is
  \<^verbatim>\<open>parseFloat(process.env.SEMANTIC_CHUNKING_THRESHOLD)\<close>, \<open>None\<close> when the variable
  is unset or does not parse.
\<close>

definition CONFIG :: "real option \<Rightarrow> config" where
  "CONFIG env =
     \<lparr>SIMILARITY_THRESHOLD = orDefault env (7 / 10),
      MIN_CHUNK_LENGTH = 10,
      MAX_CHUNK_LENGTH = 2000\<rparr>"

text \<open>The three constants \<^verbatim>\<open>threshold\<close>, \<^verbatim>\<open>minChunkLength\<close>, \<^verbatim>\<open>maxChunkLength\<close>.\<close>

definition resolveThreshold :: "real option \<Rightarrow> options \<Rightarrow> real" where
  "resolveThreshold env opts = orDefault (threshold opts) (SIMILARITY_THRESHOLD (CONFIG env))"

definition resolveMinChunkLength :: "real option \<Rightarrow> options \<Rightarrow> int" where
  "resolveMinChunkLength env opts = orDefault (minChunkLength opts) (MIN_CHUNK_LENGTH (CONFIG env))"

definition resolveMaxChunkLength :: "real option \<Rightarrow> options \<Rightarrow> int" where
  "resolveMaxChunkLength env opts = orDefault (maxChunkLength opts) (MAX_CHUNK_LENGTH (CONFIG env))"

text \<open>The inner loop of step 1, over the sentences of one message.\<close>

fun sentencesOfMessage :: "message \<Rightarrow> nat \<Rightarrow> string list \<Rightarrow> sentence list" where
  "sentencesOfMessage m sentenceIndex [] = []"
| "sentencesOfMessage m sentenceIndex (s # rest) =
     (if 0 < length (trim s)
      then \<lparr>sentence_text = trim s,
            author_role = (if isTeam m then Team else Client),
            message_timestamp = timestamp m,
            message_index = sentenceIndex,
            original_message = m\<rparr>
           # sentencesOfMessage m (sentenceIndex + 1) rest
      else sentencesOfMessage m sentenceIndex rest)"

text \<open>The outer loop of step 1; the first argument is \<^verbatim>\<open>sentenceIndex\<close>.\<close>

fun prepareSentences :: "nat \<Rightarrow> message list \<Rightarrow> sentence list" where
  "prepareSentences sentenceIndex [] = []"
| "prepareSentences sentenceIndex (m # ms) =
     (let normalizedContent = normalizeText (content m)
      in if length normalizedContent = 0 then prepareSentences sentenceIndex ms
         else
           (let new = sentencesOfMessage m sentenceIndex (splitIntoSentences normalizedContent)
            in new @ prepareSentences (sentenceIndex + length new) ms))"

text \<open>\<^verbatim>\<open>array.join(' ')\<close>.\<close>

fun joinSpace :: "string list \<Rightarrow> string" where
  "joinSpace [] = []"
| "joinSpace [x] = x"
| "joinSpace (x # y # ys) = x @ space # joinSpace (y # ys)"

text \<open>
  \<^verbatim>\<open>finalizeChunk(chunk, minLength, maxLength)\<close>; \<open>None\<close> is \<^verbatim>\<open>null\<close>. A
  negative \<^verbatim>\<open>maxLength\<close> is clamped to 0 by \<^verbatim>\<open>substring\<close>.
\<close>

definition finalizeChunk :: "accumulator \<Rightarrow> int \<Rightarrow> int \<Rightarrow> chunk option" where
  "finalizeChunk chunk minLength maxLength =
     (if length (sentences chunk) = 0 then None
      else
        (let content = joinSpace (map sentence_text (sentences chunk))
         in if int (length content) < minLength then None
            else
              (let finalContent =
                     (if maxLength < int (length content)
                      then substring content 0 (nat maxLength) @ ''...''
                      else content);
                   hasClient = list_ex (\<lambda>s. author_role s = Client) (sentences chunk);
                   role = (if hasClient then Client else running_role chunk)
               in Some \<lparr>chunk_content = trim finalContent,
                         chunk_author_role = role,
                         chunk_message_timestamp = startTimestamp chunk,
                         chunk_metadata =
                           \<lparr>sentence_count = length (sentences chunk),
                            original_length = length content\<rparr>\<rparr>)))"

text \<open>\<^verbatim>\<open>const c = finalizeChunk(...); if (c) chunks.push(c)\<close>.\<close>

definition pushFinalized :: "chunk list \<Rightarrow> chunk option \<Rightarrow> chunk list" where
  "pushFinalized chunks finalizedChunk =
     (case finalizedChunk of None \<Rightarrow> chunks | Some c \<Rightarrow> chunks @ [c])"

definition startChunk :: "sentence \<Rightarrow> embedding \<Rightarrow> accumulator" where
  "startChunk s e =
     \<lparr>sentences = [s], embeddings = [e],
      startTimestamp = message_timestamp s, running_role = author_role s\<rparr>"

definition extendChunk :: "accumulator \<Rightarrow> sentence \<Rightarrow> embedding \<Rightarrow> accumulator" where
  "extendChunk currentChunk s e =
     currentChunk
       \<lparr>sentences := sentences currentChunk @ [s],
        embeddings := embeddings currentChunk @ [e],
        running_role := (if author_role s = Client then Client else running_role currentChunk)\<rparr>"

text \<open>
  \<^verbatim>\<open>array[0]\<close> on an array of doubles. On the empty array it is \<^verbatim>\<open>undefined\<close>,
  which \<^verbatim>\<open>>=\<close> converts to \<^verbatim>\<open>NaN\<close>.
\<close>

definition first :: "number list \<Rightarrow> number" where
  "first xs = (case xs of [] \<Rightarrow> NaN | x # rest \<Rightarrow> x)"

text \<open>
  The loop of step 3, for \<open>i\<close> from 1. The list holds the pairs
  \<^verbatim>\<open>(sentences[i], embeddings[i])\<close> still to visit and \<open>prevEmbedding\<close> is
  \<^verbatim>\<open>embeddings[i - 1]\<close>. The state is \<^verbatim>\<open>chunks\<close> and \<^verbatim>\<open>currentChunk\<close>; an
  error thrown by \<^verbatim>\<open>cosineSimilarityBatch\<close> ends the call. The function
  \<^verbatim>\<open>cosineSimilarityBatch\<close> that the module imports is the parameter
  \<open>similarityBatch\<close>: the loop is modelled for whatever doubles that function computes.
\<close>

fun chunkLoop ::
  "(embedding \<Rightarrow> embedding list \<Rightarrow> error + number list) \<Rightarrow>
   real \<Rightarrow> int \<Rightarrow> int \<Rightarrow> embedding \<Rightarrow> (sentence \<times> embedding) list \<Rightarrow>
   chunk list \<Rightarrow> accumulator \<Rightarrow> error + (chunk list \<times> accumulator)" where
  "chunkLoop similarityBatch th minL maxL prevEmbedding [] chunks currentChunk =
     Inr (chunks, currentChunk)"
| "chunkLoop similarityBatch th minL maxL prevEmbedding ((s, currEmbedding) # rest) chunks
     currentChunk =
     (case similarityBatch prevEmbedding [currEmbedding] of
        Inl e \<Rightarrow> Inl e
      | Inr sims \<Rightarrow>
          (let similarity = first sims
           in if greaterOrEqual similarity th
              then chunkLoop similarityBatch th minL maxL currEmbedding rest chunks
                     (extendChunk currentChunk s currEmbedding)
              else chunkLoop similarityBatch th minL maxL currEmbedding rest
                     (pushFinalized chunks (finalizeChunk currentChunk minL maxL))
                     (startChunk s currEmbedding)))"

text \<open>
  \<^verbatim>\<open>semanticChunk(messages, options)\<close>. The two functions that the module imports
  are parameters: the embedding provider \<^verbatim>\<open>generateEmbeddingsBatch\<close>, which answers
  with the vectors or throws (\<open>Inl\<close> of the message), and
  \<^verbatim>\<open>cosineSimilarityBatch\<close> (\<open>similarityBatch\<close>). \<open>env\<close> is the parsed
  environment variable read by \<^verbatim>\<open>CONFIG\<close>.
\<close>

definition semanticChunk ::
  "real option \<Rightarrow> (string list \<Rightarrow> string + embedding list) \<Rightarrow>
   (embedding \<Rightarrow> embedding list \<Rightarrow> error + number list) \<Rightarrow> message list \<Rightarrow> options \<Rightarrow>
   error + chunk list" where
  "semanticChunk env generateEmbeddingsBatch similarityBatch messages opts =
     (if length messages = 0 then Inr []
      else
        (let th = resolveThreshold env opts;
             minL = resolveMinChunkLength env opts;
             maxL = resolveMaxChunkLength env opts;
             ss = prepareSentences 0 messages
         in if length ss = 0 then Inr []
            else
              (case generateEmbeddingsBatch (map sentence_text ss) of
                 Inl msg \<Rightarrow> Inl (EmbeddingFailure msg)
               | Inr embs \<Rightarrow>
                   if length embs \<noteq> length ss
                   then Inl (EmbeddingCountMismatch (length embs) (length ss))
                   else
                     (case chunkLoop similarityBatch th minL maxL (embs ! 0)
                             (zip (tl ss) (tl embs)) [] (startChunk (ss ! 0) (embs ! 0)) of
                        Inl e \<Rightarrow> Inl e
                      | Inr (chunks, currentChunk) \<Rightarrow>
                          Inr (pushFinalized chunks (finalizeChunk currentChunk minL maxL))))))"

section \<open>Auxiliary definitions for the proofs\<close>

text \<open>A string that neither starts nor ends with whitespace.\<close>

definition trimmed :: "string \<Rightarrow> bool" where
  "trimmed s \<longleftrightarrow> s = [] \<or> (\<not> isWhitespace (hd s) \<and> \<not> isWhitespace (last s))"

text \<open>The characters of a string that are not whitespace, in order.\<close>

definition visible :: "string \<Rightarrow> string" where
  "visible s = filter (\<lambda>c. \<not> isWhitespace c) s"

text \<open>
  The accumulators of a walk, in the order in which the loop of step 3 closes them: each
  one that the loop hands to \<^verbatim>\<open>finalizeChunk\<close>, then the one left open at the end.
  The function follows \<open>chunkLoop\<close> and records \<^verbatim>\<open>currentChunk\<close> where
  \<open>chunkLoop\<close> finalizes it.
\<close>

fun accumulatorsFrom ::
  "(embedding \<Rightarrow> embedding list \<Rightarrow> error + number list) \<Rightarrow>
   real \<Rightarrow> embedding \<Rightarrow> (sentence \<times> embedding) list \<Rightarrow> accumulator \<Rightarrow>
   error + accumulator list" where
  "accumulatorsFrom similarityBatch th prevEmbedding [] currentChunk = Inr [currentChunk]"
| "accumulatorsFrom similarityBatch th prevEmbedding ((s, currEmbedding) # rest) currentChunk =
     (case similarityBatch prevEmbedding [currEmbedding] of
        Inl e \<Rightarrow> Inl e
      | Inr sims \<Rightarrow>
          if greaterOrEqual (first sims) th
          then accumulatorsFrom similarityBatch th currEmbedding rest
                 (extendChunk currentChunk s currEmbedding)
          else (case accumulatorsFrom similarityBatch th currEmbedding rest
                       (startChunk s currEmbedding) of
                  Inl e \<Rightarrow> Inl e
                | Inr accs \<Rightarrow> Inr (currentChunk # accs)))"

text \<open>The chunks that a list of accumulators emits: \<open>finalizeChunk\<close> on each, in order.\<close>

definition emitted :: "int \<Rightarrow> int \<Rightarrow> accumulator list \<Rightarrow> chunk list" where
  "emitted minL maxL accs = List.map_filter (\<lambda>a. finalizeChunk a minL maxL) accs"

text \<open>The accumulators of a call of \<open>semanticChunk\<close>; the empty list when no walk takes place.\<close>

definition accumulators ::
  "real option \<Rightarrow> (string list \<Rightarrow> string + embedding list) \<Rightarrow>
   (embedding \<Rightarrow> embedding list \<Rightarrow> error + number list) \<Rightarrow> message list \<Rightarrow> options \<Rightarrow>
   accumulator list" where
  "accumulators env generateEmbeddingsBatch similarityBatch messages opts =
     (let ss = prepareSentences 0 messages
      in if length ss = 0 then []
         else
           (case generateEmbeddingsBatch (map sentence_text ss) of
              Inl msg \<Rightarrow> []
            | Inr embs \<Rightarrow>
                if length embs \<noteq> length ss then []
                else
                  (case accumulatorsFrom similarityBatch (resolveThreshold env opts) (embs ! 0)
                          (zip (tl ss) (tl embs)) (startChunk (ss ! 0) (embs ! 0)) of
                     Inl e \<Rightarrow> []
                   | Inr accs \<Rightarrow> accs)))"

text \<open>The \<^verbatim>\<open>content\<close> that \<open>finalizeChunk\<close> computes for an accumulator.\<close>

definition accumulatorContent :: "accumulator \<Rightarrow> string" where
  "accumulatorContent a = joinSpace (map sentence_text (sentences a))"

section \<open>Example inputs\<close>

text \<open>\<^verbatim>\<open>options = {}\<close>.\<close>

definition noOptions :: options where
  "noOptions = \<lparr>threshold = None, minChunkLength = None, maxChunkLength = None\<rparr>"

text \<open>A provider that answers every text with the same vector.\<close>

definition constantProvider :: "embedding \<Rightarrow> string list \<Rightarrow> string + embedding list" where
  "constantProvider v texts = Inr (map (\<lambda>t. v) texts)"

definition thanksMessages :: "message list" where
  "thanksMessages =
     [\<lparr>content = ''Thanks!'', author = ''ann'', timestamp = 100, isTeam = False\<rparr>,
      \<lparr>content = ''No problem, happy to help.'', author = ''bob'', timestamp = 101, isTeam = True\<rparr>]"

definition helloMessages :: "message list" where
  "helloMessages =
     [\<lparr>content = ''Hello world. Goodbye now.'', author = ''ann'', timestamp = 1, isTeam = False\<rparr>]"

definition truncatingOptions :: options where
  "truncatingOptions = \<lparr>threshold = None, minChunkLength = None, maxChunkLength = Some 12\<rparr>"

definition zeroOptions :: options where
  "zeroOptions = \<lparr>threshold = Some 0, minChunkLength = Some 0, maxChunkLength = Some 0\<rparr>"

definition fiveMessages :: "message list" where
  "fiveMessages =
     [\<lparr>content = ''One is here. Two is here. Three is here.'', author = ''ann'',
       timestamp = 7, isTeam = False\<rparr>,
      \<lparr>content = ''Four is here. Five is here.'', author = ''bob'',
       timestamp = 8, isTeam = True\<rparr>]"

definition fourVectorProvider :: "string list \<Rightarrow> string + embedding list" where
  "fourVectorProvider texts = Inr [[1], [1], [1], [1]]"


definition helloAccumulator :: accumulator where
  "helloAccumulator =
     \<lparr>sentences = prepareSentences 0 helloMessages, embeddings = [[1], [1]],
      startTimestamp = 1, running_role = Client\<rparr>"

text \<open>\<^verbatim>\<open>SEMANTIC_CHUNKING_THRESHOLD=0.5\<close> in the environment.\<close>

definition halfThresholdEnv :: "real option" where
  "halfThresholdEnv = Some (1 / 2)"

definition thanksAccumulator :: accumulator where
  "thanksAccumulator =
     \<lparr>sentences = prepareSentences 0 thanksMessages, embeddings = [[1], [1]],
      startTimestamp = 100, running_role = Client\<rparr>"

definition thanksChunk :: chunk where
  "thanksChunk =
     \<lparr>chunk_content = ''Thanks! No problem, happy to help.'', chunk_author_role = Client,
      chunk_message_timestamp = 100,
      chunk_metadata = \<lparr>sentence_count = 2, original_length = 34\<rparr>\<rparr>"

section \<open>Lemmas on the text normalizer\<close>

lemma last_dropWhile: "dropWhile P xs \<noteq> [] \<Longrightarrow> last (dropWhile P xs) = last xs"
  by (induction xs) (auto split: if_splits)

lemma trimmed_trim: "trimmed (trim s)"
proof (cases "dropWhile isWhitespace s = []")
  case True
  have "trim s = []" unfolding trim_def trimStart_def trimEnd_def True by simp
  then show ?thesis by (simp add: trimmed_def)
next
  case False
  define t where "t = dropWhile isWhitespace s"
  define u where "u = dropWhile isWhitespace (rev t)"
  have t: "t \<noteq> []" "\<not> isWhitespace (hd t)"
    using False hd_dropWhile [of isWhitespace s] by (simp_all add: t_def)
  have "last (rev t) = hd t" using t by (simp add: last_rev)
  then have "\<exists>x\<in>set (rev t). \<not> isWhitespace x"
    using t by (metis last_in_set rev_is_Nil_conv)
  then have u: "u \<noteq> []" by (simp add: u_def dropWhile_eq_Nil_conv)
  then have "\<not> isWhitespace (hd u)" "last u = hd t"
    using hd_dropWhile [of isWhitespace "rev t"] last_dropWhile [of isWhitespace "rev t"] t
    by (simp_all add: u_def last_rev)
  then have "\<not> isWhitespace (hd (rev u))" "\<not> isWhitespace (last (rev u))" "rev u \<noteq> []"
    using u t by (simp_all add: hd_rev last_rev)
  moreover have "trim s = rev u"
    by (simp add: trim_def trimStart_def trimEnd_def t_def u_def)
  ultimately show ?thesis by (simp add: trimmed_def)
qed

lemma trim_trimmed: "trimmed s \<Longrightarrow> trim s = s"
proof (cases s)
  case Nil
  then show ?thesis by (simp add: trim_def trimStart_def trimEnd_def)
next
  case (Cons c cs)
  assume "trimmed s"
  then have h: "\<not> isWhitespace (hd s)" "\<not> isWhitespace (last s)" "s \<noteq> []"
    using Cons by (auto simp: trimmed_def)
  have 1: "dropWhile isWhitespace s = s" using h Cons by simp
  have "rev s \<noteq> []" "\<not> isWhitespace (hd (rev s))" using h by (simp_all add: hd_rev)
  then have 2: "dropWhile isWhitespace (rev s) = rev s" by (cases "rev s") auto
  show ?thesis by (simp add: trim_def trimStart_def trimEnd_def 1 2)
qed

lemma collapseWhitespace_Nil_iff [simp]: "collapseWhitespace s = [] \<longleftrightarrow> s = []"
  by (cases s) auto

lemma hd_collapseWhitespace:
  "s \<noteq> [] \<Longrightarrow> \<not> isWhitespace (hd s) \<Longrightarrow> hd (collapseWhitespace s) = hd s"
  by (cases s) auto

lemma last_collapseWhitespace:
  "s \<noteq> [] \<Longrightarrow> \<not> isWhitespace (last s) \<Longrightarrow> last (collapseWhitespace s) = last s"
proof (induction s rule: collapseWhitespace.induct)
  case 1
  then show ?case by simp
next
  case (2 c cs)
  show ?case
  proof (cases "isWhitespace c")
    case True
    with "2.prems" have cs: "cs \<noteq> []" "\<not> isWhitespace (last cs)" by (auto split: if_splits)
    then have ne: "dropWhile isWhitespace cs \<noteq> []"
      by (metis dropWhile_eq_Nil_conv last_in_set)
    then have l: "last (dropWhile isWhitespace cs) = last cs" by (rule last_dropWhile)
    have "\<not> isWhitespace (last (dropWhile isWhitespace cs))" using l cs by simp
    from "2.IH"(1) [OF True ne this]
    have "last (collapseWhitespace (dropWhile isWhitespace cs)) = last cs" using l by simp
    moreover have "collapseWhitespace (dropWhile isWhitespace cs) \<noteq> []"
      using ne by (simp only: collapseWhitespace_Nil_iff not_False_eq_True)
    moreover have "collapseWhitespace (c # cs) = space # collapseWhitespace (dropWhile isWhitespace cs)"
      using True by simp
    ultimately show ?thesis using cs by (simp only: last.simps list.simps if_False)
  next
    case False
    show ?thesis
    proof (cases "cs = []")
      case True
      then show ?thesis using False by simp
    next
      case ne: False
      with "2.prems" have "\<not> isWhitespace (last cs)" by simp
      with "2.IH"(2) [OF False ne] False ne show ?thesis by simp
    qed
  qed
qed

lemma trimmed_collapseWhitespace: "trimmed s \<Longrightarrow> trimmed (collapseWhitespace s)"
  by (auto simp: trimmed_def hd_collapseWhitespace last_collapseWhitespace)

lemma dropWhile_collapseWhitespace:
  "s = [] \<or> \<not> isWhitespace (hd s) \<Longrightarrow>
   dropWhile isWhitespace (collapseWhitespace s) = collapseWhitespace s"
  by (cases s) auto

lemma collapseWhitespace_idem:
  "collapseWhitespace (collapseWhitespace s) = collapseWhitespace s"
proof (induction s rule: collapseWhitespace.induct)
  case 1
  then show ?case by simp
next
  case (2 c cs)
  show ?case
  proof (cases "isWhitespace c")
    case True
    have "dropWhile isWhitespace cs = [] \<or> \<not> isWhitespace (hd (dropWhile isWhitespace cs))"
      using hd_dropWhile [of isWhitespace cs] by blast
    then have "dropWhile isWhitespace (collapseWhitespace (dropWhile isWhitespace cs))
               = collapseWhitespace (dropWhile isWhitespace cs)"
      by (rule dropWhile_collapseWhitespace)
    moreover have "isWhitespace space" by (simp add: isWhitespace_def space_def)
    ultimately show ?thesis using True "2.IH"(1) by simp
  next
    case False
    then show ?thesis using "2.IH"(2) by simp
  qed
qed

lemma whitespace_collapseWhitespace:
  "c \<in> set (collapseWhitespace s) \<Longrightarrow> isWhitespace c \<Longrightarrow> c = space"
proof (induction s rule: collapseWhitespace.induct)
  case 1
  then show ?case by simp
next
  case (2 d ds)
  then show ?case by (auto split: if_splits)
qed

lemma collapseNewlines_id: "newline \<notin> set s \<Longrightarrow> collapseNewlines s = s"
  by (induction s) auto

lemma collapseNewlines_collapseWhitespace:
  "collapseNewlines (collapseWhitespace s) = collapseWhitespace s"
proof (rule collapseNewlines_id)
  show "newline \<notin> set (collapseWhitespace s)"
    using whitespace_collapseWhitespace [of newline s]
    by (auto simp: isWhitespace_def newline_def space_def)
qed

lemma normalizeText_eq: "normalizeText x = collapseWhitespace (trim x)"
proof (cases "x = []")
  case True
  then show ?thesis by (simp add: normalizeText_def trim_def trimStart_def trimEnd_def)
next
  case False
  have "trimmed (collapseWhitespace (trim x))"
    by (rule trimmed_collapseWhitespace) (rule trimmed_trim)
  then show ?thesis
    using False by (simp add: normalizeText_def collapseNewlines_collapseWhitespace trim_trimmed)
qed


text \<open>Every sentence that the loop of \<open>splitIntoSentences\<close> pushes has at least three characters.\<close>

lemma splitLoop_pushed:
  "x \<in> set (fst (splitLoop normalized pos lastIndex out)) \<Longrightarrow>
   x \<in> set out \<or> 3 \<le> length x"
proof (induction normalized pos lastIndex out rule: splitLoop.induct)
  case (1 normalized pos lastIndex out)
  show ?case
  proof (cases "sentenceEndExec normalized pos")
    case None
    with "1.prems" show ?thesis by (simp add: splitLoop.simps [of normalized pos])
  next
    case (Some m)
    obtain index len where m: "m = (index, len)" by (cases m)
    note ex = Some [unfolded m]
    define sentence where "sentence = trim (substring normalized lastIndex (index + 1))"
    show ?thesis
    proof (cases "0 < length sentence \<and> 2 < length sentence")
      case False
      then have "splitLoop normalized pos lastIndex out =
                 splitLoop normalized (index + len) lastIndex out"
        using ex by (auto simp: splitLoop.simps [of normalized pos] sentence_def Let_def)
      with "1.prems" "1.IH"(4) [OF ex refl refl refl False [unfolded sentence_def]] False show ?thesis
        by (auto simp: sentence_def)
    next
      case long: True
      show ?thesis
      proof (cases "(0 < index \<and> isLetter (normalized ! (index - 1))) \<and> index + 2 < length normalized")
        case abbr: True
        show ?thesis
        proof (cases "isUpper (normalized ! (index + 2))")
          case True
          then have "splitLoop normalized pos lastIndex out =
                     splitLoop normalized (index + len) (index + len) (out @ [sentence])"
            using ex long abbr by (auto simp: splitLoop.simps [of normalized pos] sentence_def Let_def)
          with "1.prems" "1.IH"(1) [OF ex refl refl refl long [unfolded sentence_def] refl abbr True] long abbr show ?thesis
            by (auto simp: sentence_def)
        next
          case False
          then have "splitLoop normalized pos lastIndex out =
                     splitLoop normalized (index + len) lastIndex out"
            using ex long abbr by (auto simp: splitLoop.simps [of normalized pos] sentence_def Let_def)
          with "1.prems" "1.IH"(2) [OF ex refl refl refl long [unfolded sentence_def] refl abbr False] long abbr show ?thesis
            by (auto simp: sentence_def)
        qed
      next
        case False
        then have "splitLoop normalized pos lastIndex out =
                   splitLoop normalized (index + len) (index + len) (out @ [sentence])"
          using ex long by (auto simp: splitLoop.simps [of normalized pos] sentence_def Let_def)
        with "1.prems" "1.IH"(3) [OF ex refl refl refl long [unfolded sentence_def] refl False] long show ?thesis
          by (auto simp: sentence_def)
      qed
    qed
  qed
qed

text \<open>
  No character but whitespace is lost by \<open>splitIntoSentences\<close>: the loop keeps the
  characters that are not whitespace of what it has pushed and of the text from
  \<^verbatim>\<open>lastIndex\<close> on.
\<close>

lemma visible_Nil [simp]: "visible [] = []"
  by (simp add: visible_def)

lemma visible_append [simp]: "visible (xs @ ys) = visible xs @ visible ys"
  by (simp add: visible_def)

lemma visible_dropWhile: "visible (dropWhile isWhitespace s) = visible s"
  by (induction s) (auto simp: visible_def)

lemma visible_rev: "visible (rev s) = rev (visible s)"
  by (simp add: visible_def rev_filter)

lemma visible_trim: "visible (trim s) = visible s"
  by (simp add: trim_def trimStart_def trimEnd_def visible_rev visible_dropWhile)

lemma visible_collapseWhitespace: "visible (collapseWhitespace s) = visible s"
proof (induction s rule: collapseWhitespace.induct)
  case 1
  then show ?case by simp
next
  case (2 c cs)
  show ?case
  proof (cases "isWhitespace c")
    case True
    have "isWhitespace space" by (simp add: isWhitespace_def space_def)
    then have "visible (collapseWhitespace (c # cs)) = visible (collapseWhitespace (dropWhile isWhitespace cs))"
      using True by (simp add: visible_def)
    also have "\<dots> = visible (dropWhile isWhitespace cs)" using "2.IH"(1) [OF True] .
    also have "\<dots> = visible (c # cs)" using True by (simp add: visible_dropWhile) (simp add: visible_def)
    finally show ?thesis .
  next
    case False
    then show ?thesis using "2.IH"(2) by (simp add: visible_def)
  qed
qed

lemma visible_takeWhile: "visible (takeWhile isWhitespace s) = []"
  by (induction s) (auto simp: visible_def)

lemma sentenceEndExec_Some:
  "sentenceEndExec s pos = Some (index, len) \<Longrightarrow>
   pos \<le> index \<and> index < length s \<and>
   len = 1 + length (takeWhile isWhitespace (drop (index + 1) s))"
proof (induction s pos rule: sentenceEndExec.induct)
  case (1 s pos)
  show ?case
  proof (cases "isPunct (s ! pos) \<and> (pos + 1 = length s \<or> isWhitespace (s ! (pos + 1)))")
    case True
    with "1.prems" show ?thesis
      by (subst (asm) sentenceEndExec.simps) (auto split: if_splits)
  next
    case False
    from "1.prems" have lt: "\<not> length s \<le> pos"
      by (subst (asm) sentenceEndExec.simps) (auto split: if_splits)
    with "1.prems" False have "sentenceEndExec s (pos + 1) = Some (index, len)"
      by (subst (asm) sentenceEndExec.simps) (auto split: if_splits)
    from "1.IH" [OF lt False this] show ?thesis by simp
  qed
qed

lemma visible_drop_boundary:
  assumes "lastIndex \<le> index" "index < length s"
    and "len = 1 + length (takeWhile isWhitespace (drop (index + 1) s))"
  shows "visible (drop lastIndex s) =
         visible (trim (substring s lastIndex (index + 1))) @ visible (drop (index + len) s)"
proof -
  define k where "k = index + 1 - lastIndex"
  let ?w = "takeWhile isWhitespace (drop (index + 1) s)"
  have sub: "substring s lastIndex (index + 1) = take k (drop lastIndex s)"
    using assms(1) by (simp add: substring_def max_def min_def k_def)
  have 1: "drop lastIndex s = take k (drop lastIndex s) @ drop k (drop lastIndex s)"
    by (simp only: append_take_drop_id)
  have "k + lastIndex = index + 1" using assms(1) by (simp add: k_def)
  then have 2: "drop k (drop lastIndex s) = drop (index + 1) s"
    by (simp only: drop_drop)
  have "dropWhile isWhitespace (drop (index + 1) s) = drop (length ?w) (drop (index + 1) s)"
    by (rule dropWhile_eq_drop)
  also have "\<dots> = drop (index + len) s" by (simp add: assms(3) add.commute)
  finally have 3: "drop (index + 1) s = ?w @ drop (index + len) s"
    by (metis takeWhile_dropWhile_id)
  have "visible (drop lastIndex s) =
        visible (take k (drop lastIndex s)) @ visible (drop (index + 1) s)"
    by (subst 1) (simp only: visible_append 2)
  also have "visible (drop (index + 1) s) = visible (drop (index + len) s)"
    by (subst 3) (simp add: visible_takeWhile)
  finally show ?thesis by (simp only: sub visible_trim)
qed

lemma splitLoop_visible:
  "lastIndex \<le> pos \<Longrightarrow> splitLoop normalized pos lastIndex out = (pushed, lastIndex') \<Longrightarrow>
   visible (concat pushed) @ visible (drop lastIndex' normalized)
     = visible (concat out) @ visible (drop lastIndex normalized)"
proof (induction normalized pos lastIndex out rule: splitLoop.induct)
  case (1 normalized pos lastIndex out)
  show ?case
  proof (cases "sentenceEndExec normalized pos")
    case None
    with "1.prems" show ?thesis by (simp add: splitLoop.simps [of normalized pos])
  next
    case (Some m)
    obtain index len where m: "m = (index, len)" by (cases m)
    note ex = Some [unfolded m]
    from sentenceEndExec_Some [OF ex] have
      b: "pos \<le> index" "index < length normalized"
         "len = 1 + length (takeWhile isWhitespace (drop (index + 1) normalized))"
      by simp_all
    from b "1.prems"(1) have le: "lastIndex \<le> index" "lastIndex \<le> index + len" "index + len \<le> index + len"
      by simp_all
    define sentence where "sentence = trim (substring normalized lastIndex (index + 1))"
    have keep: "visible (drop lastIndex normalized) =
                visible sentence @ visible (drop (index + len) normalized)"
      unfolding sentence_def by (rule visible_drop_boundary [OF le(1) b(2,3)])
    show ?thesis
    proof (cases "0 < length sentence \<and> 2 < length sentence")
      case False
      then have "splitLoop normalized pos lastIndex out =
                 splitLoop normalized (index + len) lastIndex out"
        using ex by (auto simp: splitLoop.simps [of normalized pos] sentence_def Let_def)
      with "1.prems" "1.IH"(4) [OF ex refl refl refl False [unfolded sentence_def] le(2)]
      show ?thesis by simp
    next
      case long: True
      show ?thesis
      proof (cases "(0 < index \<and> isLetter (normalized ! (index - 1))) \<and> index + 2 < length normalized")
        case abbr: True
        show ?thesis
        proof (cases "isUpper (normalized ! (index + 2))")
          case True
          then have "splitLoop normalized pos lastIndex out =
                     splitLoop normalized (index + len) (index + len) (out @ [sentence])"
            using ex long abbr by (auto simp: splitLoop.simps [of normalized pos] sentence_def Let_def)
          with "1.prems" "1.IH"(1) [OF ex refl refl refl long [unfolded sentence_def] refl abbr True le(3)]
          show ?thesis by (simp add: keep sentence_def)
        next
          case False
          then have "splitLoop normalized pos lastIndex out =
                     splitLoop normalized (index + len) lastIndex out"
            using ex long abbr by (auto simp: splitLoop.simps [of normalized pos] sentence_def Let_def)
          with "1.prems" "1.IH"(2) [OF ex refl refl refl long [unfolded sentence_def] refl abbr False le(2)]
          show ?thesis by simp
        qed
      next
        case False
        then have "splitLoop normalized pos lastIndex out =
                   splitLoop normalized (index + len) (index + len) (out @ [sentence])"
          using ex long by (auto simp: splitLoop.simps [of normalized pos] sentence_def Let_def)
        with "1.prems" "1.IH"(3) [OF ex refl refl refl long [unfolded sentence_def] refl False le(3)]
        show ?thesis by (simp add: keep sentence_def)
      qed
    qed
  qed
qed

lemma visible_Nil_trim: "trim s = [] \<Longrightarrow> visible s = []"
  using visible_trim [of s] by simp

lemma splitIntoSentences_visible:
  "visible (concat (splitIntoSentences text)) = visible text"
proof (cases "text = []")
  case True
  then show ?thesis by (simp add: splitIntoSentences_def)
next
  case False
  define n where "n = collapseWhitespace (trim text)"
  have vn: "visible n = visible text" by (simp add: n_def visible_collapseWhitespace visible_trim)
  show ?thesis
  proof (cases "n = []")
    case True
    then show ?thesis using False vn by (simp add: splitIntoSentences_def n_def [symmetric])
  next
    case ne: False
    obtain pushed li where sl: "splitLoop n 0 0 [] = (pushed, li)" by (cases "splitLoop n 0 0 []")
    from splitLoop_visible [OF _ sl]
    have inv: "visible (concat pushed) @ visible (drop li n) = visible n" by simp
    have "visible (concat (splitIntoSentences text)) = visible n"
    proof (cases "li < length n \<and> trim (substringFrom n li) \<noteq> []")
      case True
      then have "splitIntoSentences text = pushed @ [trim (drop li n)]"
        using False ne sl by (simp add: splitIntoSentences_def n_def [symmetric] Let_def substringFrom_def)
      then show ?thesis using inv by (simp add: visible_trim)
    next
      case noRest: False
      have rest: "visible (drop li n) = []"
      proof (cases "li < length n")
        case True
        with noRest have "trim (drop li n) = []" by (simp add: substringFrom_def)
        then show ?thesis by (rule visible_Nil_trim)
      next
        case False
        then show ?thesis by (simp add: visible_def)
      qed
      show ?thesis
      proof (cases "pushed = []")
        case True
        then have "splitIntoSentences text = [n]"
          using False ne sl noRest by (auto simp: splitIntoSentences_def n_def [symmetric] Let_def)
        then show ?thesis by simp
      next
        case False
        then have "splitIntoSentences text = pushed"
          using \<open>text \<noteq> []\<close> ne sl noRest
          by (auto simp: splitIntoSentences_def n_def [symmetric] Let_def)
        then show ?thesis using inv rest by simp
      qed
    qed
    then show ?thesis by (simp add: vn)
  qed
qed

section \<open>Lemmas on the similarity engine\<close>

text \<open>
  For a base vector that is not empty, the batch function is the single-pair function
  mapped over the vectors, the first failure ending the call.
\<close>

lemma cosineSimilarityBatch_nonempty:
  "baseVector \<noteq> [] \<Longrightarrow>
   cosineSimilarityBatch baseVector vectors = mapE (cosineSimilarity baseVector) vectors"
proof (induction vectors)
  case Nil
  then show ?case by (simp add: cosineSimilarityBatch_def)
next
  case (Cons v vs)
  then show ?case
    by (auto simp: cosineSimilarityBatch_def cosineSimilarity_def Let_def dotProduct_def
             split: sum.splits)
qed


section \<open>Lemmas on the chunker\<close>

lemma emitted_Cons:
  "emitted minL maxL (a # accs) =
     pushFinalized [] (finalizeChunk a minL maxL) @ emitted minL maxL accs"
  by (simp add: emitted_def pushFinalized_def List.map_filter_simps split: option.splits)

lemma pushFinalized_append:
  "pushFinalized chunks r = chunks @ pushFinalized [] r"
  by (simp add: pushFinalized_def split: option.splits)

lemma chunkLoop_accumulatorsFrom:
  "(case chunkLoop B th minL maxL prev rest chunks cur of
      Inl e \<Rightarrow> Inl e
    | Inr (cs, c) \<Rightarrow> Inr (pushFinalized cs (finalizeChunk c minL maxL)))
   = (case accumulatorsFrom B th prev rest cur of
        Inl e \<Rightarrow> Inl e
      | Inr accs \<Rightarrow> Inr (chunks @ emitted minL maxL accs))"
proof (induction rest arbitrary: prev chunks cur)
  case Nil
  show ?case
    by (simp add: emitted_def List.map_filter_simps pushFinalized_def split: option.splits)
next
  case (Cons p rest)
  obtain s e where p: "p = (s, e)" by (cases p)
  show ?case
  proof (cases "B prev [e]")
    case (Inl err)
    then show ?thesis by (simp add: p)
  next
    case (Inr sims)
    show ?thesis
    proof (cases "greaterOrEqual (first sims) th")
      case True
      then show ?thesis using Inr Cons.IH [of e chunks "extendChunk cur s e"] by (simp add: p)
    next
      case False
      then show ?thesis
        using Inr Cons.IH [of e "pushFinalized chunks (finalizeChunk cur minL maxL)" "startChunk s e"]
        by (simp add: p emitted_Cons pushFinalized_append [of chunks] split: sum.splits)
    qed
  qed
qed

lemma accumulatorsFrom_concat:
  "accumulatorsFrom B th prev rest cur = Inr accs \<Longrightarrow>
   concat (map sentences accs) = sentences cur @ map fst rest"
proof (induction rest arbitrary: prev cur accs)
  case Nil
  then show ?case by auto
next
  case (Cons p rest)
  obtain s e where p: "p = (s, e)" by (cases p)
  from Cons.prems obtain sims where sims: "B prev [e] = Inr sims"
    by (auto simp: p split: sum.splits)
  show ?case
  proof (cases "greaterOrEqual (first sims) th")
    case True
    with Cons.prems sims have "accumulatorsFrom B th e rest (extendChunk cur s e) = Inr accs"
      by (simp add: p)
    from Cons.IH [OF this] show ?thesis by (simp add: p extendChunk_def)
  next
    case False
    with Cons.prems sims obtain accs' where
      a: "accumulatorsFrom B th e rest (startChunk s e) = Inr accs'" "accs = cur # accs'"
      by (auto simp: p split: sum.splits)
    from Cons.IH [OF a(1)] show ?thesis by (simp add: p a(2) startChunk_def)
  qed
qed

lemma semanticChunk_emitted:
  assumes "semanticChunk env P B messages opts = Inr chunks"
  shows "chunks = emitted (resolveMinChunkLength env opts) (resolveMaxChunkLength env opts)
                    (accumulators env P B messages opts)"
proof (cases "prepareSentences 0 messages = []")
  case True
  with assms show ?thesis
    by (auto simp: semanticChunk_def accumulators_def emitted_def List.map_filter_simps Let_def
             split: if_splits)
next
  case False
  then have m: "messages \<noteq> []" by auto
  from assms False m obtain embs where
    e: "P (map sentence_text (prepareSentences 0 messages)) = Inr embs"
       "length embs = length (prepareSentences 0 messages)"
    by (auto simp: semanticChunk_def Let_def split: sum.splits if_splits)
  let ?ss = "prepareSentences 0 messages"
  let ?minL = "resolveMinChunkLength env opts" and ?maxL = "resolveMaxChunkLength env opts"
  let ?th = "resolveThreshold env opts"
  have "semanticChunk env P B messages opts =
        (case chunkLoop B ?th ?minL ?maxL (embs ! 0) (zip (tl ?ss) (tl embs)) []
                (startChunk (?ss ! 0) (embs ! 0)) of
           Inl e \<Rightarrow> Inl e
         | Inr (cs, c) \<Rightarrow> Inr (pushFinalized cs (finalizeChunk c ?minL ?maxL)))"
    using False m e by (simp add: semanticChunk_def Let_def)
  also have "\<dots> = (case accumulatorsFrom B ?th (embs ! 0) (zip (tl ?ss) (tl embs))
                          (startChunk (?ss ! 0) (embs ! 0)) of
                     Inl e \<Rightarrow> Inl e
                   | Inr accs \<Rightarrow> Inr ([] @ emitted ?minL ?maxL accs))"
    by (rule chunkLoop_accumulatorsFrom)
  finally show ?thesis
    using assms False e by (auto simp: accumulators_def Let_def split: sum.splits)
qed

lemma accumulators_concat:
  assumes "semanticChunk env P B messages opts = Inr chunks"
  shows "concat (map sentences (accumulators env P B messages opts)) = prepareSentences 0 messages"
proof (cases "prepareSentences 0 messages = []")
  case True
  then show ?thesis by (simp add: accumulators_def)
next
  case False
  then have m: "messages \<noteq> []" by auto
  let ?ss = "prepareSentences 0 messages"
  from assms False m obtain embs where
    e: "P (map sentence_text ?ss) = Inr embs" "length embs = length ?ss"
    by (auto simp: semanticChunk_def Let_def split: sum.splits if_splits)
  have z: "map fst (zip (tl ?ss) (tl embs)) = tl ?ss" using e by simp
  have h: "[?ss ! 0] @ tl ?ss = ?ss" using False by (cases ?ss) auto
  show ?thesis
  proof (cases "accumulatorsFrom B (resolveThreshold env opts) (embs ! 0) (zip (tl ?ss) (tl embs))
                  (startChunk (?ss ! 0) (embs ! 0))")
    case (Inl err)
    have "semanticChunk env P B messages opts = Inl err"
      using chunkLoop_accumulatorsFrom [where B = B and th = "resolveThreshold env opts"
          and minL = "resolveMinChunkLength env opts" and maxL = "resolveMaxChunkLength env opts"
          and prev = "embs ! 0" and rest = "zip (tl ?ss) (tl embs)" and chunks = "[]"
          and cur = "startChunk (?ss ! 0) (embs ! 0)"] Inl False m e
      by (simp add: semanticChunk_def Let_def)
    with assms show ?thesis by simp
  next
    case (Inr accs)
    from accumulatorsFrom_concat [OF Inr] z h
    have "concat (map sentences accs) = ?ss" by (simp add: startChunk_def)
    then show ?thesis using Inr False e by (simp add: accumulators_def Let_def)
  qed
qed



lemma upt_head: "[i..<i + Suc n] = i # [Suc i..<Suc i + n]"
  using upt_conv_Cons [of i "i + Suc n"] by (simp del: upt_Suc)

lemma sentencesOfMessage_index:
  "map message_index (sentencesOfMessage m i xs) = [i..<i + length (sentencesOfMessage m i xs)]"
proof (induction xs arbitrary: i)
  case Nil
  then show ?case by simp
next
  case (Cons x xs)
  show ?case
  proof (cases "0 < length (trim x)")
    case True
    let ?rest = "sentencesOfMessage m (Suc i) xs"
    have len: "length (sentencesOfMessage m i (x # xs)) = Suc (length ?rest)"
      using True by simp
    have "map message_index (sentencesOfMessage m i (x # xs)) = i # map message_index ?rest"
      using True by simp
    also have "\<dots> = i # [Suc i..<Suc i + length ?rest]"
      by (simp only: Cons.IH [of "Suc i"])
    also have "\<dots> = [i..<i + Suc (length ?rest)]"
      by (rule upt_head [symmetric])
    finally show ?thesis by (simp only: len)
  next
    case False
    then show ?thesis using Cons.IH [of i] by simp
  qed
qed

lemma prepareSentences_index:
  "map message_index (prepareSentences i ms) = [i..<i + length (prepareSentences i ms)]"
proof (induction ms arbitrary: i)
  case Nil
  then show ?case by simp
next
  case (Cons m ms)
  let ?new = "sentencesOfMessage m i (splitIntoSentences (normalizeText (content m)))"
  show ?case
  proof (cases "length (normalizeText (content m)) = 0")
    case True
    then show ?thesis using Cons.IH [of i] by simp
  next
    case False
    have "[i..<i + length ?new] @ [i + length ?new..<i + length ?new + length (prepareSentences (i + length ?new) ms)]
          = [i..<i + length ?new + length (prepareSentences (i + length ?new) ms)]"
      by (metis le_add1 upt_add_eq_append)
    then show ?thesis
      using False Cons.IH [of "i + length ?new"] sentencesOfMessage_index [of m i]
      by (simp add: Let_def add.assoc)
  qed
qed

lemma sentencesOfMessage_text:
  "s \<in> set (sentencesOfMessage m i xs) \<Longrightarrow> sentence_text s \<noteq> [] \<and> trimmed (sentence_text s)"
  by (induction xs arbitrary: i) (auto simp: trimmed_trim split: if_splits)

lemma prepareSentences_text:
  "s \<in> set (prepareSentences i ms) \<Longrightarrow> sentence_text s \<noteq> [] \<and> trimmed (sentence_text s)"
proof (induction ms arbitrary: i)
  case Nil
  then show ?case by simp
next
  case (Cons m ms)
  then show ?case
    by (auto simp: Let_def dest: sentencesOfMessage_text split: if_splits)
qed

lemma joinSpace_ends:
  "xs \<noteq> [] \<Longrightarrow> \<forall>x\<in>set xs. x \<noteq> [] \<Longrightarrow>
   joinSpace xs \<noteq> [] \<and> hd (joinSpace xs) = hd (hd xs) \<and> last (joinSpace xs) = last (last xs)"
  by (induction xs rule: joinSpace.induct) auto

lemma trimmed_joinSpace:
  assumes "xs \<noteq> []" "\<forall>x\<in>set xs. x \<noteq> [] \<and> trimmed x"
  shows "trimmed (joinSpace xs)"
proof -
  have "hd xs \<in> set xs" "last xs \<in> set xs" using assms(1) by simp_all
  then have "\<not> isWhitespace (hd (hd xs))" "\<not> isWhitespace (last (last xs))"
    using assms(2) by (auto simp: trimmed_def)
  then show ?thesis using joinSpace_ends [of xs] assms by (simp add: trimmed_def)
qed

lemma list_all2_map_filter:
  "list_all2 (\<lambda>a c. f a = Some c) (filter (\<lambda>a. f a \<noteq> None) xs) (List.map_filter f xs)"
  by (induction xs) (auto simp: List.map_filter_simps split: option.splits)

lemma finalizeChunk_Some:
  assumes "finalizeChunk a minL maxL = Some c"
  shows "sentences a \<noteq> []"
    and "minL \<le> int (length (joinSpace (map sentence_text (sentences a))))"
    and "sentence_count (chunk_metadata c) = length (sentences a)"
    and "original_length (chunk_metadata c) = length (joinSpace (map sentence_text (sentences a)))"
    and "chunk_message_timestamp c = startTimestamp a"
    and "list_ex (\<lambda>s. author_role s = Client) (sentences a) \<Longrightarrow> chunk_author_role c = Client"
    and "chunk_content c =
           trim (if maxL < int (length (joinSpace (map sentence_text (sentences a))))
                 then take (nat maxL) (joinSpace (map sentence_text (sentences a))) @ ''...''
                 else joinSpace (map sentence_text (sentences a)))"
  using assms by (auto simp: finalizeChunk_def Let_def substring_def split: if_splits)

lemma accumulatorsFrom_nonempty:
  "accumulatorsFrom B th prev rest cur = Inr accs \<Longrightarrow> sentences cur \<noteq> [] \<Longrightarrow>
   \<forall>a\<in>set accs. sentences a \<noteq> []"
proof (induction rest arbitrary: prev cur accs)
  case Nil
  then show ?case by auto
next
  case (Cons p rest)
  obtain s e where p: "p = (s, e)" by (cases p)
  from Cons.prems obtain sims where sims: "B prev [e] = Inr sims"
    by (auto simp: p split: sum.splits)
  show ?case
  proof (cases "greaterOrEqual (first sims) th")
    case True
    with Cons.prems sims have "accumulatorsFrom B th e rest (extendChunk cur s e) = Inr accs"
      by (simp add: p)
    from Cons.IH [OF this] show ?thesis by (simp add: extendChunk_def)
  next
    case False
    with Cons.prems sims obtain accs' where
      a: "accumulatorsFrom B th e rest (startChunk s e) = Inr accs'" "accs = cur # accs'"
      by (auto simp: p split: sum.splits)
    from Cons.IH [OF a(1)] Cons.prems(2) show ?thesis by (simp add: a(2) startChunk_def)
  qed
qed

lemma accumulators_nonempty:
  assumes "a \<in> set (accumulators env P B messages opts)"
  shows "sentences a \<noteq> []"
proof -
  let ?ss = "prepareSentences 0 messages"
  from assms obtain embs accs where
    "Inr accs = accumulatorsFrom B (resolveThreshold env opts) (embs ! 0) (zip (tl ?ss) (tl embs))
       (startChunk (?ss ! 0) (embs ! 0))" and "a \<in> set accs"
    by (auto simp: accumulators_def Let_def split: if_splits sum.splits)
  moreover have "sentences (startChunk (?ss ! 0) (embs ! 0)) \<noteq> []"
    by (simp add: startChunk_def)
  ultimately show ?thesis using accumulatorsFrom_nonempty [OF sym] by blast
qed

lemma finalizeChunk_None_iff:
  "sentences a \<noteq> [] \<Longrightarrow>
   finalizeChunk a minL maxL = None \<longleftrightarrow> \<not> minL \<le> int (length (accumulatorContent a))"
  by (auto simp: finalizeChunk_def accumulatorContent_def Let_def)

lemma semanticChunk_chunks:
  assumes "semanticChunk env P B messages opts = Inr chunks"
  shows "list_all2 (\<lambda>a c. finalizeChunk a (resolveMinChunkLength env opts)
                             (resolveMaxChunkLength env opts) = Some c)
           (filter (\<lambda>a. resolveMinChunkLength env opts \<le> int (length (accumulatorContent a)))
              (accumulators env P B messages opts))
           chunks"
proof -
  let ?minL = "resolveMinChunkLength env opts" and ?maxL = "resolveMaxChunkLength env opts"
  let ?accs = "accumulators env P B messages opts"
  have "filter (\<lambda>a. ?minL \<le> int (length (accumulatorContent a))) ?accs
        = filter (\<lambda>a. finalizeChunk a ?minL ?maxL \<noteq> None) ?accs"
    by (rule filter_cong) (simp_all add: finalizeChunk_None_iff accumulators_nonempty del: not_None_eq)
  moreover have "chunks = List.map_filter (\<lambda>a. finalizeChunk a ?minL ?maxL) ?accs"
    using semanticChunk_emitted [OF assms] by (simp add: emitted_def)
  ultimately show ?thesis
    using list_all2_map_filter [of "\<lambda>a. finalizeChunk a ?minL ?maxL" ?accs] by simp
qed

lemma accumulator_content_trimmed:
  assumes "semanticChunk env P B messages opts = Inr chunks"
    and "a \<in> set (accumulators env P B messages opts)"
  shows "trim (accumulatorContent a) = accumulatorContent a"
proof -
  have "set (sentences a) \<subseteq> set (concat (map sentences (accumulators env P B messages opts)))"
    using assms(2) by auto
  then have "set (sentences a) \<subseteq> set (prepareSentences 0 messages)"
    by (simp only: accumulators_concat [OF assms(1)])
  then have "\<forall>x\<in>set (map sentence_text (sentences a)). x \<noteq> [] \<and> trimmed x"
    using prepareSentences_text by auto
  moreover have "map sentence_text (sentences a) \<noteq> []"
    using accumulators_nonempty [OF assms(2)] by simp
  ultimately have "trimmed (accumulatorContent a)"
    unfolding accumulatorContent_def by (rule trimmed_joinSpace [rotated])
  then show ?thesis by (rule trim_trimmed)
qed


section \<open>The model on the example inputs\<close>

lemmas eval_simps = semanticChunk_def resolveThreshold_def resolveMinChunkLength_def
  resolveMaxChunkLength_def CONFIG_def orDefault_def constantProvider_def
  exactSimilarityBatch_def first_def
  cosineSimilarityBatch_def magnitude_def dotProduct_def startChunk_def extendChunk_def
  finalizeChunk_def pushFinalized_def substring_def trim_def trimStart_def trimEnd_def
  isWhitespace_def space_def Let_def

lemma prepareSentences_hello:
  "prepareSentences 0 helloMessages =
     [\<lparr>sentence_text = ''Hello world.'', author_role = Client, message_timestamp = 1,
       message_index = 0, original_message = helloMessages ! 0\<rparr>,
      \<lparr>sentence_text = ''Goodbye now.'', author_role = Client, message_timestamp = 1,
       message_index = 1, original_message = helloMessages ! 0\<rparr>]"
  by code_simp

lemma prepareSentences_thanks:
  "prepareSentences 0 thanksMessages =
     [\<lparr>sentence_text = ''Thanks!'', author_role = Client, message_timestamp = 100,
       message_index = 0, original_message = thanksMessages ! 0\<rparr>,
      \<lparr>sentence_text = ''No problem, happy to help.'', author_role = Team,
       message_timestamp = 101, message_index = 1, original_message = thanksMessages ! 1\<rparr>]"
  by code_simp


lemma prepareSentences_five: "length (prepareSentences 0 fiveMessages) = 5"
  by code_simp

lemma semanticChunk_thanks:
  "semanticChunk None (constantProvider [1]) exactSimilarityBatch thanksMessages noOptions =
     Inr [\<lparr>chunk_content = ''Thanks! No problem, happy to help.'', chunk_author_role = Client,
           chunk_message_timestamp = 100,
           chunk_metadata = \<lparr>sentence_count = 2, original_length = 34\<rparr>\<rparr>]"
  by (simp add: eval_simps prepareSentences_thanks noOptions_def) (simp add: thanksMessages_def)

lemma semanticChunk_hello_truncated:
  "semanticChunk None (constantProvider [1]) exactSimilarityBatch helloMessages truncatingOptions =
     Inr [\<lparr>chunk_content = ''Hello world....'', chunk_author_role = Client,
           chunk_message_timestamp = 1,
           chunk_metadata = \<lparr>sentence_count = 2, original_length = 25\<rparr>\<rparr>]"
  by (simp add: eval_simps prepareSentences_hello truncatingOptions_def) (simp add: helloMessages_def)

lemma accumulators_thanks:
  "accumulators None (constantProvider [1]) exactSimilarityBatch thanksMessages noOptions = [thanksAccumulator]"
  by (simp add: accumulators_def eval_simps prepareSentences_thanks noOptions_def
        thanksAccumulator_def)

lemma accumulatorContent_thanks:
  "accumulatorContent thanksAccumulator = ''Thanks! No problem, happy to help.''"
  by (simp add: accumulatorContent_def thanksAccumulator_def prepareSentences_thanks space_def)

lemma semanticChunk_thanksChunk:
  "semanticChunk None (constantProvider [1]) exactSimilarityBatch thanksMessages noOptions = Inr [thanksChunk]"
  by (simp add: semanticChunk_thanks thanksChunk_def)

lemma thanks_roles:
  "list_ex (\<lambda>s. author_role s = Client) (sentences thanksAccumulator)"
  "list_ex (\<lambda>s. author_role s = Team) (sentences thanksAccumulator)"
  by (simp_all add: thanksAccumulator_def prepareSentences_thanks)

section \<open>The claims\<close>

subsection \<open>Text normalizer\<close>

text \<open>
  C9. Normalization is idempotent: for every string \<open>x\<close>,
  \<open>normalizeText (normalizeText x) = normalizeText x\<close>.
\<close>

theorem normalizeText_idempotent: "normalizeText (normalizeText x) = normalizeText x"
proof -
  have "trimmed (collapseWhitespace (trim x))"
    by (rule trimmed_collapseWhitespace) (rule trimmed_trim)
  then have "trim (collapseWhitespace (trim x)) = collapseWhitespace (trim x)"
    by (rule trim_trimmed)
  then show ?thesis
    by (simp add: normalizeText_eq collapseWhitespace_idem)
qed

text \<open>
  No newline survives \<open>normalizeText\<close>: the replacement of whitespace runs comes
  first and a newline is whitespace, so the pattern \<^verbatim>\<open>/\n{3,}/g\<close> never matches.
\<close>

lemma normalizeText_no_newline: "newline \<notin> set (normalizeText x)"
  using whitespace_collapseWhitespace [of newline "trim x"]
  by (auto simp: normalizeText_eq isWhitespace_def newline_def space_def)

text \<open>
  C7. The claim is that a run of three or more newlines in the input is collapsed to
  exactly two newlines in the result of \<open>normalizeText\<close>. On the input
  \<^verbatim>\<open>"a\n\n\nb"\<close> the code returns \<^verbatim>\<open>"a b"\<close>: the run has become one space.
\<close>

theorem normalizeText_newline_run:
  "normalizeText [CHR ''a'', CHR 0x0A, CHR 0x0A, CHR 0x0A, CHR ''b''] = ''a b''"
  by code_simp

text \<open>
  C8. The claim is that every candidate sentence at a punctuation boundary that is shorter
  than 3 characters is dropped and appears in none of the returned sentences. The text
  \<^verbatim>\<open>"K."\<close> has one boundary, whose candidate \<^verbatim>\<open>"K."\<close> has 2 characters; the
  loop skips it without moving \<^verbatim>\<open>lastIndex\<close>, and the remaining text
  \<^verbatim>\<open>"K."\<close> is returned. In \<^verbatim>\<open>"A. Hello world."\<close> the short candidate
  \<^verbatim>\<open>"A."\<close> stays in front of the sentence that is returned.
\<close>

theorem splitIntoSentences_short_candidate_kept:
  "sentenceEndExec ''K.'' 0 = Some (1, 1) \<and>
   trim (substring ''K.'' 0 (1 + 1)) = ''K.'' \<and>
   length ''K.'' < 3 \<and>
   splitIntoSentences ''K.'' = [''K.''] \<and>
   splitIntoSentences ''A. Hello world.'' = [''A. Hello world.'']"
  by code_simp

text \<open>
  C8, as the code has it. Every sentence that is pushed at a punctuation boundary has at
  least 3 characters, so every returned sentence but possibly the last one (the remaining
  text) has. A candidate shorter than 3 characters is not pushed at its boundary, and the
  loop goes on from behind the boundary with \<^verbatim>\<open>lastIndex\<close> unchanged. Its text is not
  dropped: the returned sentences, concatenated in order, hold exactly the characters of
  the input that are not whitespace, in order.
\<close>

theorem splitIntoSentences_short_candidate:
  "(\<forall>x\<in>set (fst (splitLoop normalized pos lastIndex [])). 3 \<le> length x) \<and>
   (\<forall>x\<in>set (butlast (splitIntoSentences text)). 3 \<le> length x) \<and>
   (sentenceEndExec normalized pos = Some (index, len) \<and>
    length (trim (substring normalized lastIndex (index + 1))) < 3 \<longrightarrow>
      splitLoop normalized pos lastIndex out = splitLoop normalized (index + len) lastIndex out) \<and>
   visible (concat (splitIntoSentences text)) = visible text"
proof (intro conjI impI ballI)
  fix x assume "x \<in> set (fst (splitLoop normalized pos lastIndex []))"
  from splitLoop_pushed [OF this] show "3 \<le> length x" by simp
next
  fix x assume x: "x \<in> set (butlast (splitIntoSentences text))"
  define n where "n = collapseWhitespace (trim text)"
  obtain pushed li where sl: "splitLoop n 0 0 [] = (pushed, li)" by (cases "splitLoop n 0 0 []")
  have p: "\<And>y. y \<in> set pushed \<Longrightarrow> 3 \<le> length y"
    using splitLoop_pushed [of _ n 0 0 "[]"] sl by simp
  have "set (butlast (splitIntoSentences text)) \<subseteq> set pushed"
    using sl in_set_butlastD [of _ pushed]
    by (auto simp: splitIntoSentences_def Let_def n_def [symmetric] butlast_append
             split: if_splits)
  with x p show "3 \<le> length x" by auto
next
  assume "sentenceEndExec normalized pos = Some (index, len) \<and>
          length (trim (substring normalized lastIndex (index + 1))) < 3"
  then show "splitLoop normalized pos lastIndex out = splitLoop normalized (index + len) lastIndex out"
    by (auto simp: splitLoop.simps [of normalized pos] Let_def)
next
  show "visible (concat (splitIntoSentences text)) = visible text"
    by (rule splitIntoSentences_visible)
qed

theorem splitIntoSentences_short_candidate_witness:
  "''A. Hello world.'' \<in> set (butlast (splitIntoSentences ''A. Hello world. Bye now.'')) \<and>
   3 \<le> length ''A. Hello world.'' \<and>
   sentenceEndExec ''A. Hello world. Bye now.'' 0 = Some (1, 2) \<and>
   length (trim (substring ''A. Hello world. Bye now.'' 0 (1 + 1))) < 3 \<and>
   splitLoop ''A. Hello world. Bye now.'' 0 0 [] = splitLoop ''A. Hello world. Bye now.'' (1 + 2) 0 [] \<and>
   visible (concat (splitIntoSentences ''Hello world. K.'')) = ''Helloworld.K.''"
proof -
  have m: "''A. Hello world.'' \<in> set (butlast (splitIntoSentences ''A. Hello world. Bye now.''))"
    by code_simp
  have e: "sentenceEndExec ''A. Hello world. Bye now.'' 0 = Some (1, 2)" by code_simp
  have l: "length (trim (substring ''A. Hello world. Bye now.'' 0 (1 + 1))) < 3" by code_simp
  have v: "visible ''Hello world. K.'' = ''Helloworld.K.''" by code_simp
  note t = splitIntoSentences_short_candidate [of "''A. Hello world. Bye now.''" 0 0
      "''A. Hello world. Bye now.''" 1 2 "[]"]
  note t' = splitIntoSentences_short_candidate [of "[]" 0 0 "''Hello world. K.''" 0 0 "[]"]
  from t m have "3 \<le> length ''A. Hello world.''" by blast
  moreover from t e l
  have "splitLoop ''A. Hello world. Bye now.'' 0 0 [] = splitLoop ''A. Hello world. Bye now.'' (1 + 2) 0 []"
    by blast
  moreover from t' v
  have "visible (concat (splitIntoSentences ''Hello world. K.'')) = ''Helloworld.K.''"
    by (simp only:)
  ultimately show ?thesis using m e l by blast
qed

subsection \<open>Similarity engine\<close>

text \<open>
  C5. The claim is that \<open>cosineSimilarityBatch\<close> agrees with \<open>cosineSimilarity\<close>
  on every pair, failures included, and names the empty-vector failure. On the empty base
  vector and one empty vector, \<open>cosineSimilarity\<close> fails with \<open>EmptyVector\<close> while
  \<open>cosineSimilarityBatch\<close> returns the similarity 0: the batch function has no check
  for empty vectors.
\<close>

theorem cosineSimilarityBatch_empty_vectors:
  "cosineSimilarityBatch [] [[]] = Inr [0] \<and> cosineSimilarity [] [] = Inl EmptyVector"
  by (simp add: cosineSimilarityBatch_def cosineSimilarity_def magnitude_def dotProduct_def)

subsection \<open>Semantic chunker\<close>

text \<open>
  C1. When the embedding provider is called (there is at least one sentence) and answers with
  a number of vectors that differs from the number of sentences, \<open>semanticChunk\<close>
  fails with \<open>EmbeddingCountMismatch\<close>; the result is the error, not a list of
  chunks.
\<close>

theorem embedding_count_mismatch:
  assumes "prepareSentences 0 messages \<noteq> []"
    and "generateEmbeddingsBatch (map sentence_text (prepareSentences 0 messages)) = Inr embs"
    and "length embs \<noteq> length (prepareSentences 0 messages)"
  shows "semanticChunk env generateEmbeddingsBatch similarityBatch messages opts =
           Inl (EmbeddingCountMismatch (length embs) (length (prepareSentences 0 messages)))"
proof -
  from assms(1) have "messages \<noteq> []" by auto
  with assms show ?thesis by (simp add: semanticChunk_def Let_def)
qed

theorem embedding_count_mismatch_witness:
  "length (prepareSentences 0 fiveMessages) = 5 \<and>
   fourVectorProvider (map sentence_text (prepareSentences 0 fiveMessages))
     = Inr [[1], [1], [1], [1]] \<and>
   semanticChunk None fourVectorProvider exactSimilarityBatch fiveMessages noOptions
     = Inl (EmbeddingCountMismatch 4 5)"
proof -
  have len: "length (prepareSentences 0 fiveMessages) = 5" by (rule prepareSentences_five)
  then have ne: "prepareSentences 0 fiveMessages \<noteq> []" by auto
  have p: "fourVectorProvider (map sentence_text (prepareSentences 0 fiveMessages))
             = Inr [[1], [1], [1], [1]]"
    by (simp add: fourVectorProvider_def)
  have "length [[1], [1], [1], [1::real]] \<noteq> length (prepareSentences 0 fiveMessages)"
    by (simp add: len)
  from embedding_count_mismatch [where generateEmbeddingsBatch = fourVectorProvider
      and similarityBatch = exactSimilarityBatch
      and messages = fiveMessages and env = None and opts = noOptions, OF ne p this] len p
  show ?thesis by simp
qed

text \<open>
  C6. \<open>finalizeChunk\<close> compares the length of the space-joined content, before any
  truncation, with \<open>minLength\<close>: below it the accumulator is discarded and nothing is
  emitted. Otherwise (for an accumulator that holds a sentence) a chunk is emitted, its
  content truncated to \<open>maxLength\<close> characters plus \<^verbatim>\<open>...\<close> only when the
  content is longer than \<open>maxLength\<close>, and \<open>original_length\<close> is the length before
  truncation.
\<close>

theorem finalizeChunk_length_check:
  "(int (length (joinSpace (map sentence_text (sentences acc)))) < minLength \<longrightarrow>
      finalizeChunk acc minLength maxLength = None) \<and>
   (sentences acc \<noteq> [] \<and>
    minLength \<le> int (length (joinSpace (map sentence_text (sentences acc)))) \<longrightarrow>
      finalizeChunk acc minLength maxLength =
        Some \<lparr>chunk_content =
                 trim (if maxLength < int (length (joinSpace (map sentence_text (sentences acc))))
                       then take (nat maxLength) (joinSpace (map sentence_text (sentences acc)))
                            @ ''...''
                       else joinSpace (map sentence_text (sentences acc))),
               chunk_author_role =
                 (if list_ex (\<lambda>s. author_role s = Client) (sentences acc) then Client
                  else running_role acc),
               chunk_message_timestamp = startTimestamp acc,
               chunk_metadata =
                 \<lparr>sentence_count = length (sentences acc),
                  original_length = length (joinSpace (map sentence_text (sentences acc)))\<rparr>\<rparr>)"
  by (auto simp: finalizeChunk_def Let_def substring_def)

theorem finalizeChunk_length_check_witness:
  "length (joinSpace (map sentence_text (sentences helloAccumulator))) = 25 \<and>
   finalizeChunk helloAccumulator 26 2000 = None \<and>
   finalizeChunk helloAccumulator 20 12 =
     Some \<lparr>chunk_content = ''Hello world....'', chunk_author_role = Client,
            chunk_message_timestamp = 1,
            chunk_metadata = \<lparr>sentence_count = 2, original_length = 25\<rparr>\<rparr>"
proof -
  have s: "sentences helloAccumulator = prepareSentences 0 helloMessages"
    by (simp add: helloAccumulator_def)
  have j: "joinSpace (map sentence_text (sentences helloAccumulator)) = ''Hello world. Goodbye now.''"
    by (simp add: s prepareSentences_hello space_def)
  have ne: "sentences helloAccumulator \<noteq> []" by (simp add: s prepareSentences_hello)
  have t: "trim ''Hello world....'' = ''Hello world....''" by code_simp
  from finalizeChunk_length_check [of helloAccumulator 26 2000]
  have 1: "finalizeChunk helloAccumulator 26 2000 = None" by (simp add: j)
  from finalizeChunk_length_check [of helloAccumulator 20 12] ne
  have 2: "finalizeChunk helloAccumulator 20 12 =
     Some \<lparr>chunk_content = ''Hello world....'', chunk_author_role = Client,
            chunk_message_timestamp = 1,
            chunk_metadata = \<lparr>sentence_count = 2, original_length = 25\<rparr>\<rparr>"
    by (simp add: j t) (simp add: s prepareSentences_hello helloAccumulator_def)
  from 1 2 j show ?thesis by simp
qed

text \<open>
  C10. The claim is that an option set to 0 is ignored and the default 0.7, 10 or 2000 is
  used. The default threshold is \<^verbatim>\<open>CONFIG.SIMILARITY_THRESHOLD\<close>, which is read from
  the environment: with \<^verbatim>\<open>SEMANTIC_CHUNKING_THRESHOLD=0.5\<close> a threshold option of 0 is
  replaced by 0.5, not by 0.7.
\<close>

theorem zero_threshold_environment_default:
  "resolveThreshold halfThresholdEnv zeroOptions = 1 / 2 \<and>
   resolveThreshold halfThresholdEnv zeroOptions \<noteq> 7 / 10"
  by (simp add: resolveThreshold_def halfThresholdEnv_def zeroOptions_def CONFIG_def orDefault_def)

text \<open>
  C10, as the code has it. An option set to 0 is ignored: a threshold of 0 is replaced by
  \<^verbatim>\<open>CONFIG.SIMILARITY_THRESHOLD\<close>, which is 0.7 unless the environment variable
  parses to a number other than 0 and is that number then; a \<^verbatim>\<open>minChunkLength\<close> of 0
  is replaced by 10 and a \<^verbatim>\<open>maxChunkLength\<close> of 0 by 2000. \<open>semanticChunk\<close>
  returns the same with the option set to 0 as with the option absent.
\<close>

theorem zero_options_ignored:
  "(threshold opts = Some 0 \<longrightarrow>
      resolveThreshold env opts = SIMILARITY_THRESHOLD (CONFIG env)) \<and>
   SIMILARITY_THRESHOLD (CONFIG env) =
     (case env of None \<Rightarrow> 7 / 10 | Some t \<Rightarrow> if t = 0 then 7 / 10 else t) \<and>
   (minChunkLength opts = Some 0 \<longrightarrow> resolveMinChunkLength env opts = 10) \<and>
   (maxChunkLength opts = Some 0 \<longrightarrow> resolveMaxChunkLength env opts = 2000) \<and>
   semanticChunk env generateEmbeddingsBatch similarityBatch messages (opts\<lparr>threshold := Some 0\<rparr>) =
     semanticChunk env generateEmbeddingsBatch similarityBatch messages (opts\<lparr>threshold := None\<rparr>) \<and>
   semanticChunk env generateEmbeddingsBatch similarityBatch messages (opts\<lparr>minChunkLength := Some 0\<rparr>) =
     semanticChunk env generateEmbeddingsBatch similarityBatch messages (opts\<lparr>minChunkLength := None\<rparr>) \<and>
   semanticChunk env generateEmbeddingsBatch similarityBatch messages (opts\<lparr>maxChunkLength := Some 0\<rparr>) =
     semanticChunk env generateEmbeddingsBatch similarityBatch messages (opts\<lparr>maxChunkLength := None\<rparr>)"
  by (simp add: semanticChunk_def resolveThreshold_def resolveMinChunkLength_def
        resolveMaxChunkLength_def CONFIG_def orDefault_def split: option.splits)

theorem zero_options_ignored_witness:
  "threshold zeroOptions = Some 0 \<and> minChunkLength zeroOptions = Some 0 \<and>
   maxChunkLength zeroOptions = Some 0 \<and>
   resolveThreshold None zeroOptions = 7 / 10 \<and>
   resolveMinChunkLength None zeroOptions = 10 \<and>
   resolveMaxChunkLength None zeroOptions = 2000"
proof -
  have z: "threshold zeroOptions = Some 0" "minChunkLength zeroOptions = Some 0"
    "maxChunkLength zeroOptions = Some 0"
    by (simp_all add: zeroOptions_def)
  note t = zero_options_ignored [of zeroOptions None]
  from t z(1) have "resolveThreshold None zeroOptions = 7 / 10" by simp
  moreover from t z(2) have "resolveMinChunkLength None zeroOptions = 10" by blast
  moreover from t z(3) have "resolveMaxChunkLength None zeroOptions = 2000" by blast
  ultimately show ?thesis using z by blast
qed

text \<open>
  C2. The claim is that every sentence is in the content of exactly one emitted chunk, or
  of none when its accumulator was discarded for being shorter than
  \<^verbatim>\<open>minChunkLength\<close>. With \<^verbatim>\<open>maxChunkLength = 12\<close> the two sentences of
  \<^verbatim>\<open>"Hello world. Goodbye now."\<close> share one accumulator, which is emitted with the
  content \<^verbatim>\<open>"Hello world...."\<close>: the second sentence is in the content of no chunk
  although its accumulator was not discarded.
\<close>

theorem truncation_loses_sentence:
  "map sentence_text (prepareSentences 0 helloMessages) = [''Hello world.'', ''Goodbye now.''] \<and>
   semanticChunk None (constantProvider [1]) exactSimilarityBatch helloMessages truncatingOptions =
     Inr [\<lparr>chunk_content = ''Hello world....'', chunk_author_role = Client,
           chunk_message_timestamp = 1,
           chunk_metadata = \<lparr>sentence_count = 2, original_length = 25\<rparr>\<rparr>] \<and>
   \<not> sublist ''Goodbye now.'' ''Hello world....''"
proof -
  have "\<not> sublist ''Goodbye now.'' ''Hello world....''" by code_simp
  then show ?thesis
    by (simp add: prepareSentences_hello semanticChunk_hello_truncated)
qed

text \<open>
  C2, as the code has it. On a successful call the sentences carry the indices
  \<open>0, 1, \<dots>\<close> and the accumulators of the walk, concatenated in order, are exactly
  the sentences: every sentence is in exactly one accumulator. The emitted chunks are, one
  for one and in order, the accumulators whose joined content has at least
  \<^verbatim>\<open>minChunkLength\<close> characters; the others emit nothing. The content of an emitted
  chunk is the space-joined text of all sentences of its accumulator when that is at most
  \<^verbatim>\<open>maxChunkLength\<close> characters long, and otherwise its first
  \<^verbatim>\<open>maxChunkLength\<close> characters followed by \<^verbatim>\<open>...\<close> (trimmed).
\<close>

theorem chunk_coverage:
  assumes "semanticChunk env generateEmbeddingsBatch similarityBatch messages opts = Inr chunks"
  shows "map message_index (prepareSentences 0 messages)
           = [0..<length (prepareSentences 0 messages)] \<and>
         concat (map sentences (accumulators env generateEmbeddingsBatch similarityBatch messages opts))
           = prepareSentences 0 messages \<and>
         list_all2
           (\<lambda>a c. sentence_count (chunk_metadata c) = length (sentences a) \<and>
                  chunk_content c =
                    (if resolveMaxChunkLength env opts < int (length (accumulatorContent a))
                     then trim (take (nat (resolveMaxChunkLength env opts)) (accumulatorContent a)
                                @ ''...'')
                     else accumulatorContent a))
           (filter (\<lambda>a. resolveMinChunkLength env opts \<le> int (length (accumulatorContent a)))
              (accumulators env generateEmbeddingsBatch similarityBatch messages opts))
           chunks"
proof (intro conjI)
  show "map message_index (prepareSentences 0 messages) = [0..<length (prepareSentences 0 messages)]"
    using prepareSentences_index [of 0 messages] by simp
  show "concat (map sentences (accumulators env generateEmbeddingsBatch similarityBatch messages opts))
          = prepareSentences 0 messages"
    by (rule accumulators_concat [OF assms])
  show "list_all2
           (\<lambda>a c. sentence_count (chunk_metadata c) = length (sentences a) \<and>
                  chunk_content c =
                    (if resolveMaxChunkLength env opts < int (length (accumulatorContent a))
                     then trim (take (nat (resolveMaxChunkLength env opts)) (accumulatorContent a)
                                @ ''...'')
                     else accumulatorContent a))
           (filter (\<lambda>a. resolveMinChunkLength env opts \<le> int (length (accumulatorContent a)))
              (accumulators env generateEmbeddingsBatch similarityBatch messages opts))
           chunks"
  proof (rule list.rel_mono_strong [OF semanticChunk_chunks [OF assms]])
    fix a c
    assume a: "a \<in> set (filter (\<lambda>a. resolveMinChunkLength env opts \<le> int (length (accumulatorContent a)))
              (accumulators env generateEmbeddingsBatch similarityBatch messages opts))"
      and f: "finalizeChunk a (resolveMinChunkLength env opts) (resolveMaxChunkLength env opts) = Some c"
    from a have "a \<in> set (accumulators env generateEmbeddingsBatch similarityBatch messages opts)" by simp
    from accumulator_content_trimmed [OF assms this] finalizeChunk_Some(3,7) [OF f]
    show "sentence_count (chunk_metadata c) = length (sentences a) \<and>
          chunk_content c =
            (if resolveMaxChunkLength env opts < int (length (accumulatorContent a))
             then trim (take (nat (resolveMaxChunkLength env opts)) (accumulatorContent a) @ ''...'')
             else accumulatorContent a)"
      by (simp add: accumulatorContent_def)
  qed
qed

theorem chunk_coverage_witness:
  "semanticChunk None (constantProvider [1]) exactSimilarityBatch thanksMessages noOptions = Inr [thanksChunk] \<and>
   accumulators None (constantProvider [1]) exactSimilarityBatch thanksMessages noOptions = [thanksAccumulator] \<and>
   map message_index (prepareSentences 0 thanksMessages) = [0, 1] \<and>
   concat (map sentences [thanksAccumulator]) = prepareSentences 0 thanksMessages \<and>
   sentence_count (chunk_metadata thanksChunk) = length (sentences thanksAccumulator) \<and>
   chunk_content thanksChunk = accumulatorContent thanksAccumulator"
proof -
  note t = chunk_coverage [OF semanticChunk_thanksChunk]
  have two: "[0..<length (prepareSentences 0 thanksMessages)] = [0, 1]"
    by (simp add: prepareSentences_thanks upt_rec)
  have keep: "resolveMinChunkLength None noOptions \<le> int (length (accumulatorContent thanksAccumulator))"
    "\<not> resolveMaxChunkLength None noOptions < int (length (accumulatorContent thanksAccumulator))"
    by (simp_all add: accumulatorContent_thanks resolveMinChunkLength_def resolveMaxChunkLength_def
          CONFIG_def orDefault_def noOptions_def)
  from t have "map message_index (prepareSentences 0 thanksMessages) = [0, 1]"
    by (simp only: two)
  moreover from t
  have "concat (map sentences [thanksAccumulator]) = prepareSentences 0 thanksMessages"
    by (simp only: accumulators_thanks)
  moreover from t keep
  have "sentence_count (chunk_metadata thanksChunk) = length (sentences thanksAccumulator) \<and>
        chunk_content thanksChunk = accumulatorContent thanksAccumulator"
    by (simp add: accumulators_thanks)
  ultimately show ?thesis using semanticChunk_thanksChunk accumulators_thanks by blast
qed

text \<open>
  C3. On a successful call every emitted chunk comes from one accumulator of the walk (the
  chunks are, in order, the accumulators that are not discarded), and when that accumulator
  holds a sentence of role \<open>Client\<close> the role of the chunk is \<open>Client\<close>, whatever
  the number of \<open>Team\<close> sentences beside it.
\<close>

theorem client_role_dominance:
  assumes "semanticChunk env generateEmbeddingsBatch similarityBatch messages opts = Inr chunks"
  shows "list_all2
           (\<lambda>a c. list_ex (\<lambda>s. author_role s = Client) (sentences a) \<longrightarrow>
                  chunk_author_role c = Client)
           (filter (\<lambda>a. resolveMinChunkLength env opts \<le> int (length (accumulatorContent a)))
              (accumulators env generateEmbeddingsBatch similarityBatch messages opts))
           chunks"
proof (rule list_all2_mono [OF semanticChunk_chunks [OF assms]])
  fix a c
  assume "finalizeChunk a (resolveMinChunkLength env opts) (resolveMaxChunkLength env opts) = Some c"
  from finalizeChunk_Some(6) [OF this]
  show "list_ex (\<lambda>s. author_role s = Client) (sentences a) \<longrightarrow> chunk_author_role c = Client"
    by blast
qed

theorem client_role_dominance_witness:
  "semanticChunk None (constantProvider [1]) exactSimilarityBatch thanksMessages noOptions = Inr [thanksChunk] \<and>
   accumulators None (constantProvider [1]) exactSimilarityBatch thanksMessages noOptions = [thanksAccumulator] \<and>
   list_ex (\<lambda>s. author_role s = Client) (sentences thanksAccumulator) \<and>
   list_ex (\<lambda>s. author_role s = Team) (sentences thanksAccumulator) \<and>
   chunk_author_role thanksChunk = Client"
proof -
  note t = client_role_dominance [OF semanticChunk_thanksChunk]
  have keep: "resolveMinChunkLength None noOptions \<le> int (length (accumulatorContent thanksAccumulator))"
    by (simp add: accumulatorContent_thanks resolveMinChunkLength_def CONFIG_def orDefault_def
          noOptions_def)
  from t keep thanks_roles(1) have "chunk_author_role thanksChunk = Client"
    by (simp add: accumulators_thanks)
  then show ?thesis using semanticChunk_thanksChunk accumulators_thanks thanks_roles by blast
qed




end
